theory Spec2Isabelle
  imports Main "HOL-Library.Word"
begin

unbundle bit_operations_syntax

section \<open>Build configuration and faults\<close>

text \<open>
  The runtime is compiled against constants that the generated headers and
  \<^verbatim>\<open>gencgc-internal.h\<close> define; none of these headers is among the sources. The
  constants are parameters here: every function of the model takes the configuration it
  was compiled with. \<^verbatim>\<open>NDEBUG\<close> and \<^verbatim>\<open>DEBUG\<close> are the two preprocessor switches that
  \<^verbatim>\<open>gc-internal.h\<close> and \<^verbatim>\<open>gencgc-private.h\<close> test, and \<^verbatim>\<open>REQUIRE_GC_INHIBIT\<close> is the
  switch that \<^verbatim>\<open>alloc.c\<close> computes from the platform. Shift counts are natural numbers;
  the C code is defined for \<^verbatim>\<open>GENCGC_CARD_SHIFT\<close> from 1 to 63 only.
\<close>

record config =
  WORD_SHIFT :: nat
  GENCGC_CARD_SHIFT :: nat
  GENCGC_PAGE_WORDS :: nat
  N_WORD_BYTES :: "32 word"
  LOWTAG_MASK :: "32 word"
  STATIC_SPACE_END :: "64 word"
  CODE_HEADER_SIZE_SHIFT :: nat
  CODE_HEADER_WIDETAG :: "64 word"
  OTHER_POINTER_LOWTAG :: "64 word"
  REQUIRE_GC_INHIBIT :: bool
  NDEBUG :: bool
  DEBUG :: bool

text \<open>
  A call either returns or stops the process. \<open>GC_invariant_lost\<close> is \<^verbatim>\<open>gc_abort()\<close>,
  \<open>GC_enabled\<close> is the \<^verbatim>\<open>lose\<close> of \<^verbatim>\<open>alloc_code_object\<close>. The page table is an array
  whose length the sources do not show; an access outside it has no meaning in C and is
  the fault \<open>Outside_page_table\<close> here.
\<close>

datatype fault = GC_invariant_lost | GC_enabled | Outside_page_table

text \<open>\<^verbatim>\<open>gc_assert(ex)\<close> of \<^verbatim>\<open>gc-internal.h\<close>: nothing under \<^verbatim>\<open>NDEBUG\<close>, else abort when
  \<open>ex\<close> is false.\<close>

definition gc_assert :: "config \<Rightarrow> bool \<Rightarrow> fault + unit" where
  "gc_assert cfg ex = (if \<not> NDEBUG cfg \<and> \<not> ex then Inl GC_invariant_lost else Inr ())"

section \<open>The page table\<close>

text \<open>Modelled from the spec: \<^verbatim>\<open>struct page\<close> is declared in \<^verbatim>\<open>gencgc-internal.h\<close>,
  which is not among the sources. Its fields are those of the page table entry of the
  specification, under the names that \<^verbatim>\<open>gencgc-private.h\<close> uses (the two names that end
  in an underscore in C end in \<open>_field\<close> here). With the condensed page table the scan-start field is
  an \<^verbatim>\<open>unsigned int\<close>, as \<^verbatim>\<open>SCAN_START_OFS_MAX\<close> is \<^verbatim>\<open>UINT_MAX\<close>; the words used and the
  generation are only compared, and are numbers here.\<close>

record page =
  scan_start_offset_field :: "32 word"
  words_used_field :: nat
  need_zerofill :: bool
  type :: nat
  gen :: int

text \<open>
  A page index is a signed machine integer (\<^verbatim>\<open>page_index_t\<close>). The functions below read
  the table at every index they compute and stop at the first one outside it, so an index
  never leaves the range of the machine type and is an integer here. A size in bytes
  (\<^verbatim>\<open>os_vm_size_t\<close>) is a 64-bit word.
\<close>

type_synonym page_index_t = int
type_synonym os_vm_size_t = "64 word"

definition in_table :: "page list \<Rightarrow> page_index_t \<Rightarrow> bool" where
  "in_table page_table index = (0 \<le> index \<and> index < int (length page_table))"

definition pt_get :: "page list \<Rightarrow> page_index_t \<Rightarrow> fault + page" where
  "pt_get page_table index =
     (if in_table page_table index then Inr (page_table ! nat index)
      else Inl Outside_page_table)"

definition pt_set_scan_start :: "page list \<Rightarrow> page_index_t \<Rightarrow> 32 word \<Rightarrow> fault + page list" where
  "pt_set_scan_start page_table index val =
     (if in_table page_table index
      then Inr (page_table[nat index := (page_table ! nat index)\<lparr>scan_start_offset_field := val\<rparr>])
      else Inl Outside_page_table)"

subsection \<open>The scan-start codec (condensed page table)\<close>

definition SCAN_START_OFS_MAX :: "32 word" where
  "SCAN_START_OFS_MAX = - 1"

text \<open>Modelled from the spec: \<^verbatim>\<open>GENCGC_PAGE_BYTES\<close> is not defined in the sources at
  hand; the spec calls \<^verbatim>\<open>GENCGC_CARD_SHIFT\<close> the base-two logarithm of the page size.\<close>

definition GENCGC_PAGE_BYTES :: "config \<Rightarrow> os_vm_size_t" where
  "GENCGC_PAGE_BYTES cfg = push_bit (GENCGC_CARD_SHIFT cfg) 1"

text \<open>Modelled from the spec: \<^verbatim>\<open>IS_ALIGNED\<close> comes from \<^verbatim>\<open>align.h\<close>, which is not among
  the sources; "an exact multiple of" a power of two is a zero remainder under its mask.\<close>

definition IS_ALIGNED :: "os_vm_size_t \<Rightarrow> os_vm_size_t \<Rightarrow> bool" where
  "IS_ALIGNED x a = (x AND (a - 1) = 0)"

definition set_page_scan_start_offset ::
  "config \<Rightarrow> page list \<Rightarrow> page_index_t \<Rightarrow> os_vm_size_t \<Rightarrow> fault + page list" where
  "set_page_scan_start_offset cfg page_table index offset =
     (let lsb = (offset \<noteq> 0 \<and> IS_ALIGNED offset (GENCGC_PAGE_BYTES cfg));
          scaled = drop_bit (if lsb then GENCGC_CARD_SHIFT cfg - 1 else WORD_SHIFT cfg) offset
                     OR (if lsb then 1 else 0)
      in if scaled > ucast SCAN_START_OFS_MAX
         then (case gc_assert cfg lsb of
                 Inl e \<Rightarrow> Inl e
               | Inr _ \<Rightarrow> pt_set_scan_start page_table index SCAN_START_OFS_MAX)
         else pt_set_scan_start page_table index (ucast scaled))"

text \<open>
  The \<^verbatim>\<open>do ... while\<close> loop of \<^verbatim>\<open>scan_start_offset_iterated\<close>, with the running total as
  argument. Every further round looks \<open>2 ^ 31 - 1\<close> pages further back, so the loop
  leaves the table after finitely many rounds.
\<close>

function scan_start_loop :: "page list \<Rightarrow> page_index_t \<Rightarrow> page_index_t \<Rightarrow> fault + page_index_t" where
  "scan_start_loop page_table index tot_offset_in_pages =
     (case pt_get page_table (index - tot_offset_in_pages) of
        Inl e \<Rightarrow> Inl e
      | Inr pg \<Rightarrow>
          if scan_start_offset_field pg = SCAN_START_OFS_MAX
          then scan_start_loop page_table index
                 (tot_offset_in_pages + uint (drop_bit 1 (scan_start_offset_field pg)))
          else Inr (tot_offset_in_pages + uint (drop_bit 1 (scan_start_offset_field pg))))"
  by pat_completeness auto
termination
proof (relation "measure (\<lambda>(page_table, index, tot). nat (index - tot + 1))")
  show "wf (measure (\<lambda>(page_table, index, tot). nat (index - tot + 1)))"
    by simp
next
  fix page_table :: "page list" and index tot :: int and pg :: page
  assume got: "pt_get page_table (index - tot) = Inr pg"
    and mx: "scan_start_offset_field pg = SCAN_START_OFS_MAX"
  from got have "0 \<le> index - tot"
    by (simp add: pt_get_def in_table_def split: if_splits)
  moreover have "uint (drop_bit 1 (SCAN_START_OFS_MAX :: 32 word)) = 2147483647"
    by (simp add: SCAN_START_OFS_MAX_def mask_eq_exp_minus_1 uint_mask_eq)
  ultimately show "((page_table, index, tot + uint (drop_bit 1 (scan_start_offset_field pg))),
      (page_table, index, tot)) \<in> measure (\<lambda>(page_table, index, tot). nat (index - tot + 1))"
    using mx by simp
qed

declare scan_start_loop.simps [simp del]

definition scan_start_offset_iterated ::
  "config \<Rightarrow> page list \<Rightarrow> page_index_t \<Rightarrow> fault + os_vm_size_t" where
  "scan_start_offset_iterated cfg page_table index =
     (case scan_start_loop page_table index 0 of
        Inl e \<Rightarrow> Inl e
      | Inr tot_offset_in_pages \<Rightarrow>
          Inr (push_bit (GENCGC_CARD_SHIFT cfg) (word_of_int tot_offset_in_pages)))"

definition page_scan_start_offset ::
  "config \<Rightarrow> page list \<Rightarrow> page_index_t \<Rightarrow> fault + os_vm_size_t" where
  "page_scan_start_offset cfg page_table index =
     (case pt_get page_table index of
        Inl e \<Rightarrow> Inl e
      | Inr pg \<Rightarrow>
          if scan_start_offset_field pg \<noteq> SCAN_START_OFS_MAX
          then Inr (push_bit
                      (if scan_start_offset_field pg AND 1 \<noteq> 0
                       then GENCGC_CARD_SHIFT cfg - 1 else WORD_SHIFT cfg)
                      (ucast (scan_start_offset_field pg AND NOT 1)))
          else scan_start_offset_iterated cfg page_table index)"

section \<open>The contiguous-block boundary oracle\<close>

definition page_starts_contiguous_block_p :: "page list \<Rightarrow> page_index_t \<Rightarrow> fault + bool" where
  "page_starts_contiguous_block_p page_table page_index =
     (case pt_get page_table page_index of
        Inl e \<Rightarrow> Inl e
      | Inr pg \<Rightarrow> Inr (scan_start_offset_field pg = 0))"

text \<open>
  The two answers of \<^verbatim>\<open>page_ends_contiguous_block_p\<close>. C's \<^verbatim>\<open>||\<close> evaluates left to
  right and stops at the first true operand, so the entry of the next page is read only
  when the page is full (and, for the cross-check, allocated before
  \<^verbatim>\<open>next_free_page\<close>). \<^verbatim>\<open>next_free_page\<close> is a global of the collector.
\<close>

definition ends_block_answer :: "config \<Rightarrow> page list \<Rightarrow> page_index_t \<Rightarrow> fault + bool" where
  "ends_block_answer cfg page_table page_index =
     (case pt_get page_table page_index of
        Inl e \<Rightarrow> Inl e
      | Inr pg \<Rightarrow>
          if words_used_field pg < GENCGC_PAGE_WORDS cfg then Inr True
          else page_starts_contiguous_block_p page_table (page_index + 1))"

definition ends_block_safe_answer ::
  "config \<Rightarrow> page_index_t \<Rightarrow> page list \<Rightarrow> page_index_t \<Rightarrow> int \<Rightarrow> fault + bool" where
  "ends_block_safe_answer cfg next_free_page page_table page_index g =
     (case pt_get page_table page_index of
        Inl e \<Rightarrow> Inl e
      | Inr pg \<Rightarrow>
          if words_used_field pg < GENCGC_PAGE_WORDS cfg then Inr True
          else if page_index + 1 \<ge> next_free_page then Inr True
          else (case pt_get page_table (page_index + 1) of
                  Inl e \<Rightarrow> Inl e
                | Inr nxt \<Rightarrow>
                    if words_used_field nxt = 0 then Inr True
                    else if gen nxt \<noteq> g then Inr True
                    else page_starts_contiguous_block_p page_table (page_index + 1)))"

definition page_ends_contiguous_block_p ::
  "config \<Rightarrow> page_index_t \<Rightarrow> page list \<Rightarrow> page_index_t \<Rightarrow> int \<Rightarrow> fault + bool" where
  "page_ends_contiguous_block_p cfg next_free_page page_table page_index g =
     (case ends_block_answer cfg page_table page_index of
        Inl e \<Rightarrow> Inl e
      | Inr answer \<Rightarrow>
          if DEBUG cfg
          then (case ends_block_safe_answer cfg next_free_page page_table page_index g of
                  Inl e \<Rightarrow> Inl e
                | Inr safe_answer \<Rightarrow>
                    (case gc_assert cfg (answer = safe_answer) of
                       Inl e \<Rightarrow> Inl e
                     | Inr _ \<Rightarrow> Inr answer))
          else Inr answer)"

text \<open>The \<^verbatim>\<open>while\<close> loop of \<^verbatim>\<open>contiguous_block_final_page\<close>; \<^verbatim>\<open>page_table[first].gen\<close>
  is read anew in every round, as the loop condition does.\<close>

function block_final_loop ::
  "config \<Rightarrow> page_index_t \<Rightarrow> page list \<Rightarrow> page_index_t \<Rightarrow> page_index_t \<Rightarrow> fault + page_index_t" where
  "block_final_loop cfg next_free_page page_table first last_page =
     (case pt_get page_table first of
        Inl e \<Rightarrow> Inl e
      | Inr pg \<Rightarrow>
          (case page_ends_contiguous_block_p cfg next_free_page page_table last_page (gen pg) of
             Inl e \<Rightarrow> Inl e
           | Inr ends \<Rightarrow>
               if \<not> ends then block_final_loop cfg next_free_page page_table first (last_page + 1)
               else Inr last_page))"
  by pat_completeness auto
termination
proof (relation "measure (\<lambda>(cfg, nfp, page_table, first, last_page). nat (int (length page_table) - last_page))")
  show "wf (measure (\<lambda>(cfg, nfp, page_table, first, last_page). nat (int (length page_table) - last_page)))"
    by simp
next
  fix cfg :: config and next_free_page first last_page :: int and page_table :: "page list"
    and pg :: page and ends :: bool
  assume "page_ends_contiguous_block_p cfg next_free_page page_table last_page (gen pg) = Inr ends"
  then have "in_table page_table last_page"
    by (simp add: page_ends_contiguous_block_p_def ends_block_answer_def pt_get_def
        split: sum.splits if_splits)
  then show "((cfg, next_free_page, page_table, first, last_page + 1),
      (cfg, next_free_page, page_table, first, last_page))
      \<in> measure (\<lambda>(cfg, nfp, page_table, first, last_page). nat (int (length page_table) - last_page))"
    by (simp add: in_table_def)
qed

declare block_final_loop.simps [simp del]

definition contiguous_block_final_page ::
  "config \<Rightarrow> page_index_t \<Rightarrow> page list \<Rightarrow> page_index_t \<Rightarrow> fault + page_index_t" where
  "contiguous_block_final_page cfg next_free_page page_table first =
     block_final_loop cfg next_free_page page_table first first"

section \<open>The allocators of \<^verbatim>\<open>alloc.c\<close>\<close>

subsection \<open>The lock-free bump allocator of static space\<close>

text \<open>
  Addresses are 64-bit words, compared unsigned as pointers are; \<^verbatim>\<open>nbytes\<close> is an
  \<^verbatim>\<open>int\<close> and is sign-extended when it is added to the pointer.

  The loop of \<^verbatim>\<open>atomic_bump_static_space_free_ptr\<close> runs against other threads. The last
  argument lists what \<^verbatim>\<open>__sync_val_compare_and_swap\<close> finds in
  \<^verbatim>\<open>static_space_free_pointer\<close>, one value for each swap at which another thread has
  interfered; once the list is used up the swap finds what this thread has read last. The
  result is the pointer returned and the frontier as this thread leaves it: the new
  frontier after a successful swap, the frontier last read when nothing is written.
\<close>

fun bump_loop :: "config \<Rightarrow> 32 word \<Rightarrow> 64 word \<Rightarrow> 64 word list \<Rightarrow> 64 word \<times> 64 word" where
  "bump_loop cfg nbytes claimed_ptr [] =
     (let new = claimed_ptr + scast nbytes
      in if new > STATIC_SPACE_END cfg \<or> new < claimed_ptr then (0, claimed_ptr)
         else (claimed_ptr, new))"
| "bump_loop cfg nbytes claimed_ptr (actual_old # others) =
     (let new = claimed_ptr + scast nbytes
      in if new > STATIC_SPACE_END cfg \<or> new < claimed_ptr then (0, claimed_ptr)
         else if actual_old = claimed_ptr then (claimed_ptr, new)
         else bump_loop cfg nbytes actual_old others)"

definition atomic_bump_static_space_free_ptr ::
  "config \<Rightarrow> 32 word \<Rightarrow> 64 word \<Rightarrow> 64 word list \<Rightarrow> fault + 64 word \<times> 64 word" where
  "atomic_bump_static_space_free_ptr cfg nbytes static_space_free_pointer others =
     (case gc_assert cfg (nbytes AND LOWTAG_MASK cfg = 0) of
        Inl e \<Rightarrow> Inl e
      | Inr _ \<Rightarrow> Inr (bump_loop cfg nbytes static_space_free_pointer others))"

subsection \<open>Code objects\<close>

text \<open>Modelled from the spec: \<^verbatim>\<open>struct thread\<close> is declared in \<^verbatim>\<open>thread.h\<close>, which is not
  among the sources. A thread of the registry exposes a flag that the collector is
  inhibited (\<^verbatim>\<open>GC_INHIBIT\<close> is not \<^verbatim>\<open>NIL\<close>) and a slot for the profile data pointer.\<close>

record thread =
  gc_inhibit :: bool
  profile_data :: "64 word"

text \<open>Modelled from the spec: \<^verbatim>\<open>struct code\<close> is generated (\<^verbatim>\<open>genesis/code.h\<close>) and not
  among the sources. A code object begins with its header word; the boxed size and the
  debug info are the two words after it.\<close>

definition header_slot :: nat where "header_slot = 0"
definition boxed_size_slot :: nat where "boxed_size_slot = 1"
definition debug_info_slot :: nat where "debug_info_slot = 2"

text \<open>Modelled from the spec: \<^verbatim>\<open>make_lispobj\<close> is not among the sources. The object
  reference that \<^verbatim>\<open>alloc_code_object\<close> returns is the address with the low tag set.\<close>

definition make_lispobj :: "64 word \<Rightarrow> 64 word \<Rightarrow> 64 word" where
  "make_lispobj ptr lowtag = ptr OR lowtag"

text \<open>
  The memory of the new object is the array \<^verbatim>\<open>(lispobj*)code\<close>, indexed in words from the
  address \<open>code\<close> that \<^verbatim>\<open>lisp_alloc\<close> has returned. \<^verbatim>\<open>lisp_alloc\<close> and the mutex are
  collaborators outside the sources: the address is an argument, and locking succeeds.
  The stores follow the order of the source. \<^verbatim>\<open>total_words\<close> is \<^verbatim>\<open>unsigned\<close>, so
  \<^verbatim>\<open>total_words-1\<close> wraps at zero.
\<close>

definition alloc_code_object ::
  "config \<Rightarrow> thread \<Rightarrow> 64 word \<Rightarrow> (nat \<Rightarrow> 64 word) \<Rightarrow> 32 word
     \<Rightarrow> fault + 64 word \<times> (nat \<Rightarrow> 64 word)" where
  "alloc_code_object cfg th code mem total_words =
     (if REQUIRE_GC_INHIBIT cfg \<and> \<not> gc_inhibit th then Inl GC_enabled
      else
        let mem1 = mem(header_slot :=
                     push_bit (CODE_HEADER_SIZE_SHIFT cfg) (ucast total_words)
                       OR CODE_HEADER_WIDETAG cfg);
            mem2 = mem1(boxed_size_slot := 0);
            mem3 = mem2(debug_info_slot := 0);
            mem4 = mem3(unat (total_words - 1) := 0)
        in Inr (make_lispobj code (OTHER_POINTER_LOWTAG cfg), mem4))"

section \<open>The allocation profiler\<close>

text \<open>
  What the profiler prints, one constructor for each format string of
  \<^verbatim>\<open>allocation_profiler_start\<close> and \<^verbatim>\<open>allocation_profiler_stop\<close>.
\<close>

datatype message =
    Using_cells "32 word" "64 word" "64 word"
  | Profiler_threads nat
  | Unsafely_changed
  | Already_started
  | Metadata_not_created
  | Not_started

text \<open>
  The globals of the profiler, the threads that \<^verbatim>\<open>for_each_thread\<close> visits, the two
  output streams, and the address space: \<open>os_mapped\<close> are the regions that
  \<^verbatim>\<open>os_allocate\<close> has handed out and \<^verbatim>\<open>os_deallocate\<close> has not taken back, as pairs of
  address and size. \<open>alloc_profile_data\<close> is \<open>Some n\<close> for a simple vector of length
  \<open>n\<close> and \<open>None\<close> for any other object. \<^verbatim>\<open>alloc_profiling\<close> is an \<^verbatim>\<open>int\<close> and
  \<^verbatim>\<open>max_alloc_point_counters\<close> an \<^verbatim>\<open>unsigned int\<close>; the product with the constant
  \<^verbatim>\<open>N_WORD_BYTES\<close> is formed in 32 bits before it becomes a \<^verbatim>\<open>size_t\<close>.
\<close>

record profiler =
  alloc_profile_buffer :: "64 word"
  profile_buffer_size :: "64 word"
  alloc_profile_data :: "nat option"
  alloc_profiling :: "32 word"
  max_alloc_point_counters :: "32 word"
  all_threads :: "thread list"
  os_mapped :: "(64 word \<times> 64 word) list"
  os_fresh :: "64 word list"
  stdout :: "message list"
  stderr :: "message list"

text \<open>Modelled from the spec: the address-space provider is not among the sources.
  \<open>map(size) -> address\<close> hands out the next address of \<open>os_fresh\<close> (the provider's
  choice, null when it has none) and \<open>unmap(address, size)\<close> gives a region back.\<close>

definition os_allocate :: "profiler \<Rightarrow> 64 word \<Rightarrow> 64 word \<times> profiler" where
  "os_allocate s len =
     (case os_fresh s of
        [] \<Rightarrow> (0, s)
      | a # rest \<Rightarrow> (a, s\<lparr>os_mapped := (a, len) # os_mapped s, os_fresh := rest\<rparr>))"

definition os_deallocate :: "profiler \<Rightarrow> 64 word \<Rightarrow> 64 word \<Rightarrow> profiler" where
  "os_deallocate s addr len = s\<lparr>os_mapped := remove1 (addr, len) (os_mapped s)\<rparr>"

text \<open>Modelled from the spec: \<^verbatim>\<open>simple_vector_p\<close> and \<^verbatim>\<open>vector_len\<close> come with
  \<^verbatim>\<open>genesis/vector.h\<close>, which is not among the sources: whether the metadata vector is
  present, and its length.\<close>

definition simple_vector_p :: "nat option \<Rightarrow> bool" where
  "simple_vector_p obj = (obj \<noteq> None)"

definition vector_len :: "nat option \<Rightarrow> nat" where
  "vector_len obj = (case obj of Some n \<Rightarrow> n | None \<Rightarrow> 0)"

definition allocation_profiler_start :: "config \<Rightarrow> profiler \<Rightarrow> profiler" where
  "allocation_profiler_start cfg s =
     (if alloc_profiling s = 0 \<and> simple_vector_p (alloc_profile_data s) then
        let s1 = s\<lparr>max_alloc_point_counters :=
                     word_of_nat (vector_len (alloc_profile_data s) div 2)\<rparr>;
            size = ucast (N_WORD_BYTES cfg * max_alloc_point_counters s1);
            (old_buffer, s2) =
              (if size \<noteq> profile_buffer_size s1 then
                 let s1a = s1\<lparr>profile_buffer_size := size\<rparr>;
                     old_buffer = alloc_profile_buffer s1a;
                     (a, s1b) = os_allocate s1a size;
                     s1c = s1b\<lparr>alloc_profile_buffer := a\<rparr>
                 in (old_buffer,
                     s1c\<lparr>stdout := stdout s1c @
                       [Using_cells (max_alloc_point_counters s1c) size (alloc_profile_buffer s1c)]\<rparr>)
               else (0, s1));
            s3 = s2\<lparr>alloc_profiling := 1\<rparr>;
            s4 = s3\<lparr>all_threads :=
                   map (\<lambda>th. th\<lparr>profile_data := alloc_profile_buffer s3\<rparr>) (all_threads s3)\<rparr>;
            s5 = s4\<lparr>stdout := stdout s4 @ [Profiler_threads (length (all_threads s4))]\<rparr>
        in if old_buffer \<noteq> 0
           then os_deallocate (s5\<lparr>stdout := stdout s5 @ [Unsafely_changed]\<rparr>)
                  (alloc_profile_buffer s5) (profile_buffer_size s5)
           else s5
      else s\<lparr>stderr := stderr s @
             [if alloc_profiling s \<noteq> 0 then Already_started else Metadata_not_created]\<rparr>)"

definition allocation_profiler_stop :: "profiler \<Rightarrow> profiler" where
  "allocation_profiler_stop s =
     (if alloc_profiling s \<noteq> 0
      then s\<lparr>alloc_profiling := 0,
             all_threads := map (\<lambda>th. th\<lparr>profile_data := 0\<rparr>) (all_threads s)\<rparr>
      else s\<lparr>stderr := stderr s @ [Not_started]\<rparr>)"

section \<open>Notions of the specification and a concrete configuration\<close>

text \<open>
  The span of the codec: an offset is within it when the encoder neither clips it nor
  stores the sentinel \<^verbatim>\<open>SCAN_START_OFS_MAX\<close> for it. A non-zero page-aligned offset is
  counted in pages and must stay below \<open>2 ^ 31 - 1\<close> pages; any other offset is counted
  in words and must stay below \<open>2 ^ 32\<close> words.
\<close>

definition within_span :: "config \<Rightarrow> os_vm_size_t \<Rightarrow> bool" where
  "within_span cfg offset =
     (if offset \<noteq> 0 \<and> IS_ALIGNED offset (GENCGC_PAGE_BYTES cfg)
      then unat offset div 2 ^ GENCGC_CARD_SHIFT cfg < 2 ^ 31 - 1
      else unat offset div 2 ^ WORD_SHIFT cfg < 2 ^ 32)"

text \<open>
  The configuration of the scenarios of the specification: words of 8 bytes, pages of
  4096 bytes, a static space that ends 8192 bytes after \<open>0x50000000\<close>, assertions
  compiled in, the debug cross-check compiled out.
\<close>

definition scenario_config :: config where
  "scenario_config = \<lparr>WORD_SHIFT = 3, GENCGC_CARD_SHIFT = 12, GENCGC_PAGE_WORDS = 512,
     N_WORD_BYTES = 8, LOWTAG_MASK = 15, STATIC_SPACE_END = 0x50002000,
     CODE_HEADER_SIZE_SHIFT = 32, CODE_HEADER_WIDETAG = 0x4D, OTHER_POINTER_LOWTAG = 15,
     REQUIRE_GC_INHIBIT = False, NDEBUG = False, DEBUG = False\<rparr>"

definition free_page :: page where
  "free_page = \<lparr>scan_start_offset_field = 0, words_used_field = 0, need_zerofill = False,
     type = 0, gen = 0\<rparr>"

text \<open>
  The reconstruction as the specification words it, for a page that stores the sentinel:
  start at the page; a page that stores the sentinel sends the walk back by its stored
  value shifted right by one, and its distance is added; the first page that stores
  anything else ends the walk and adds its own stored value shifted right by one.
  \<open>lookback page_table p d\<close>: the walk from page \<open>p\<close> ends, and \<open>d\<close> is the sum of the
  page distances.
\<close>

inductive lookback :: "page list \<Rightarrow> page_index_t \<Rightarrow> page_index_t \<Rightarrow> bool" where
  final: "pt_get page_table p = Inr pg \<Longrightarrow> scan_start_offset_field pg \<noteq> SCAN_START_OFS_MAX \<Longrightarrow>
         lookback page_table p (uint (drop_bit 1 (scan_start_offset_field pg)))"
| further: "pt_get page_table p = Inr pg \<Longrightarrow> scan_start_offset_field pg = SCAN_START_OFS_MAX \<Longrightarrow>
         lookback page_table (p - uint (drop_bit 1 (scan_start_offset_field pg))) d \<Longrightarrow>
         lookback page_table p (uint (drop_bit 1 (scan_start_offset_field pg)) + d)"

code_pred lookback .

text \<open>
  A table of \<open>2 ^ 31\<close> pages, all free but the last, which stores the sentinel: the one
  region that starts at page 0 is long enough for the clipped encoding.
\<close>

definition large_table :: "page list" where
  "large_table = (replicate 2147483648 free_page)
     [2147483647 := free_page\<lparr>scan_start_offset_field := SCAN_START_OFS_MAX\<rparr>]"

text \<open>
  The three-page scenario of the specification: pages 0 and 1 are full, page 2 holds 10
  words, page 3 is the free page after the region. The scan-start fields are what the
  encoder stores for the offsets 0, 4096 and 8192 of the three pages.
\<close>

definition scenario_table :: "page list" where
  "scenario_table =
     [free_page\<lparr>words_used_field := 512\<rparr>,
      free_page\<lparr>scan_start_offset_field := 3, words_used_field := 512\<rparr>,
      free_page\<lparr>scan_start_offset_field := 5, words_used_field := 10\<rparr>,
      free_page]"

text \<open>
  The outcome of a claim of static space, told from the frontier that the call has read
  last. \<open>cannot_advance\<close> is the test of the loop: the frontier advanced by the byte
  count, in pointer arithmetic, lies beyond the end of the space or below the frontier.
  \<open>outcome\<close> is what the claim says of that frontier: null and an unchanged frontier
  when it cannot advance, else the frontier itself and the frontier advanced.
  \<open>failed_swaps cfg nbytes f found\<close> says that the values \<open>found\<close> are what a run of
  failed swaps reads, starting from the frontier \<open>f\<close>: at every frontier read the
  advance was possible, and the swap found another value in its place, which is the
  frontier read next.
\<close>

definition cannot_advance :: "config \<Rightarrow> 32 word \<Rightarrow> 64 word \<Rightarrow> bool" where
  "cannot_advance cfg nbytes f =
     (f + scast nbytes > STATIC_SPACE_END cfg \<or> f + scast nbytes < f)"

definition outcome :: "config \<Rightarrow> 32 word \<Rightarrow> 64 word \<Rightarrow> 64 word \<times> 64 word" where
  "outcome cfg nbytes f =
     (if cannot_advance cfg nbytes f then (0, f) else (f, f + scast nbytes))"

fun failed_swaps :: "config \<Rightarrow> 32 word \<Rightarrow> 64 word \<Rightarrow> 64 word list \<Rightarrow> bool" where
  "failed_swaps cfg nbytes f [] = True"
| "failed_swaps cfg nbytes f (a # found) =
     (\<not> cannot_advance cfg nbytes f \<and> a \<noteq> f \<and> failed_swaps cfg nbytes a found)"

text \<open>
  What a reader finds in word \<open>i\<close> of the new object once \<^verbatim>\<open>alloc_code_object\<close> has
  returned.
\<close>

definition code_word_after ::
  "config \<Rightarrow> thread \<Rightarrow> 64 word \<Rightarrow> (nat \<Rightarrow> 64 word) \<Rightarrow> 32 word \<Rightarrow> nat \<Rightarrow> fault + 64 word" where
  "code_word_after cfg th code mem total_words i =
     (case alloc_code_object cfg th code mem total_words of
        Inl e \<Rightarrow> Inl e
      | Inr (obj, mem') \<Rightarrow> Inr (mem' i))"

definition inhibited_thread :: thread where
  "inhibited_thread = \<lparr>gc_inhibit = True, profile_data = 0\<rparr>"

text \<open>
  The size in bytes of the counter buffer that \<^verbatim>\<open>allocation_profiler_start\<close> computes from
  the metadata vector of a state.
\<close>

definition counters_size :: "config \<Rightarrow> profiler \<Rightarrow> 64 word" where
  "counters_size cfg s =
     ucast (N_WORD_BYTES cfg * (word_of_nat (vector_len (alloc_profile_data s) div 2) :: 32 word))"

text \<open>
  A process with two threads before the profiler has ever run: no buffer, a metadata
  vector of 8 entries, and an address space that will hand out \<open>0x7F0000000000\<close> and
  then \<open>0x7F0000010000\<close>. \<open>resized_state\<close> is that process after a start and a stop,
  with a metadata vector that has grown to 16 entries.
\<close>

definition cold_state :: profiler where
  "cold_state = \<lparr>alloc_profile_buffer = 0, profile_buffer_size = 0,
     alloc_profile_data = Some 8, alloc_profiling = 0, max_alloc_point_counters = 0,
     all_threads = [\<lparr>gc_inhibit = False, profile_data = 0\<rparr>,
                    \<lparr>gc_inhibit = False, profile_data = 0\<rparr>],
     os_mapped = [], os_fresh = [0x7F0000000000, 0x7F0000010000],
     stdout = [], stderr = []\<rparr>"

definition resized_state :: profiler where
  "resized_state =
     (allocation_profiler_stop (allocation_profiler_start scenario_config cold_state))
       \<lparr>alloc_profile_data := Some 16\<rparr>"

section \<open>Bits of machine words\<close>

lemma low_bits_zero:
  fixes w :: "'a::len word"
  assumes "w AND mask k = 0" "i < k"
  shows "\<not> bit w i"
proof
  assume "bit w i"
  with assms(2) have "bit (w AND mask k) i"
    by (simp add: bit_and_iff bit_mask_iff bit_imp_le_length)
  with assms(1) show False by simp
qed

lemma high_bits_zero:
  fixes w :: "'a::len word"
  assumes "unat w < 2 ^ k" "k \<le> i"
  shows "\<not> bit w i"
proof -
  from assms(1) have "take_bit k (unat w) = unat w"
    by (simp add: take_bit_nat_eq_self_iff)
  then have "take_bit k w = w"
    by (metis unsigned_take_bit_eq word_unat_eq_iff)
  then have "bit w i = bit (take_bit k w) i" by simp
  with assms(2) show ?thesis by (simp add: bit_take_bit_iff)
qed

lemma le_mask32:
  fixes w :: "64 word"
  assumes "\<And>i. 32 \<le> i \<Longrightarrow> \<not> bit w i"
  shows "\<not> w > ucast (- 1 :: 32 word)"
proof -
  have "take_bit 32 w = w"
    using assms by (auto simp: bit_eq_iff bit_take_bit_iff not_le [symmetric])
  then have "w AND mask 32 = w"
    by (simp add: take_bit_eq_mask)
  then have "w \<le> mask 32"
    by (metis word_and_le1)
  moreover have "ucast (- 1 :: 32 word) = (mask 32 :: 64 word)"
    by (simp add: unsigned_minus_1_eq_mask)
  ultimately show ?thesis by (simp add: not_less)
qed

lemma unaligned_rt:
  fixes off :: "64 word"
  assumes lo: "\<And>i. i \<le> ws \<Longrightarrow> \<not> bit off i" and hi: "\<And>i. ws + 32 \<le> i \<Longrightarrow> \<not> bit off i"
  shows "\<not> drop_bit ws off OR 0 > ucast (- 1 :: 32 word)"
    and "(ucast (drop_bit ws off OR 0) :: 32 word) \<noteq> - 1"
    and "(ucast (drop_bit ws off OR 0) :: 32 word) AND 1 = 0"
    and "push_bit ws (ucast ((ucast (drop_bit ws off OR 0) :: 32 word) AND NOT 1) :: 64 word) = off"
proof -
  show "\<not> drop_bit ws off OR 0 > ucast (- 1 :: 32 word)"
    by (rule le_mask32) (simp add: bit_simps hi)
  have b0: "\<not> bit (ucast (drop_bit ws off OR 0) :: 32 word) 0"
    by (simp add: bit_simps lo)
  then show "(ucast (drop_bit ws off OR 0) :: 32 word) \<noteq> - 1"
    by (auto simp: bit_0)
  from b0 show "(ucast (drop_bit ws off OR 0) :: 32 word) AND 1 = 0"
    by (simp add: and_one_eq bit_0 flip: even_iff_mod_2_eq_zero)
  show "push_bit ws (ucast ((ucast (drop_bit ws off OR 0) :: 32 word) AND NOT 1) :: 64 word) = off"
  proof (rule bit_eqI)
    fix i
    assume "possible_bit TYPE(64 word) i"
    then have i64: "i < 64" by simp
    show "bit (push_bit ws (ucast ((ucast (drop_bit ws off OR 0) :: 32 word) AND NOT 1) :: 64 word)) i = bit off i"
    proof (cases "bit off i")
      case True
      then have "ws < i" "i < ws + 32" using lo [of i] hi [of i] by (force simp: not_le [symmetric])+
      with True i64 show ?thesis by (auto simp: bit_simps)
    next
      case False
      then show ?thesis by (auto simp: bit_simps)
    qed
  qed
qed


lemma not_all_ones:
  fixes x :: "64 word"
  assumes "unat x < 2 ^ 31 - 1"
  shows "\<exists>j<31. \<not> bit x j"
proof (rule ccontr)
  assume "\<not> (\<exists>j<31. \<not> bit x j)"
  then have ones: "\<And>j. j < 31 \<Longrightarrow> bit x j" by blast
  from assms have "unat x < 2 ^ 31" by simp
  then have hi: "\<And>i. 31 \<le> i \<Longrightarrow> \<not> bit x i" by (rule high_bits_zero)
  have "x = mask 31"
  proof (rule bit_eqI)
    fix i
    show "bit x i = bit (mask 31 :: 64 word) i"
      using ones [of i] hi [of i] by (auto simp: bit_simps not_le [symmetric])
  qed
  then have "unat x = 2 ^ 31 - 1"
    by (simp add: mask_eq_exp_minus_1)
  with assms show False by simp
qed

lemma aligned_rt:
  fixes off :: "64 word"
  assumes cs: "1 \<le> cs"
    and lo: "\<And>i. i < cs \<Longrightarrow> \<not> bit off i"
    and pages: "unat (drop_bit cs off) < 2 ^ 31 - 1"
  shows "\<not> drop_bit (cs - 1) off OR 1 > ucast (- 1 :: 32 word)"
    and "(ucast (drop_bit (cs - 1) off OR 1) :: 32 word) \<noteq> - 1"
    and "(ucast (drop_bit (cs - 1) off OR 1) :: 32 word) AND 1 \<noteq> 0"
    and "push_bit (cs - 1) (ucast ((ucast (drop_bit (cs - 1) off OR 1) :: 32 word) AND NOT 1) :: 64 word) = off"
proof -
  from pages have "unat (drop_bit cs off) < 2 ^ 31" by simp
  then have "\<And>i. 31 \<le> i \<Longrightarrow> \<not> bit (drop_bit cs off) i" by (rule high_bits_zero)
  then have hi: "\<And>i. cs + 31 \<le> i \<Longrightarrow> \<not> bit off i"
  proof -
    fix i assume a: "cs + 31 \<le> i" and b: "\<And>i. 31 \<le> i \<Longrightarrow> \<not> bit (drop_bit cs off) i"
    from b [of "i - cs"] a show "\<not> bit off i" by (simp add: bit_simps)
  qed
  show "\<not> drop_bit (cs - 1) off OR 1 > ucast (- 1 :: 32 word)"
  proof (rule le_mask32)
    fix i :: nat assume "32 \<le> i"
    with cs hi [of "cs - 1 + i"] show "\<not> bit (drop_bit (cs - 1) off OR 1) i"
      by (simp add: bit_simps)
  qed
  from not_all_ones [OF pages] obtain j where j: "j < 31" "\<not> bit (drop_bit cs off) j"
    by blast
  with cs have "\<not> bit (ucast (drop_bit (cs - 1) off OR 1) :: 32 word) (Suc j)"
    by (simp add: bit_simps)
  moreover from j have "bit (- 1 :: 32 word) (Suc j)" by simp
  ultimately show "(ucast (drop_bit (cs - 1) off OR 1) :: 32 word) \<noteq> - 1"
    by metis
  have "bit (ucast (drop_bit (cs - 1) off OR 1) :: 32 word) 0"
    by (simp add: bit_simps)
  then show "(ucast (drop_bit (cs - 1) off OR 1) :: 32 word) AND 1 \<noteq> 0"
    by (simp add: and_one_eq bit_0 flip: even_iff_mod_2_eq_zero)
  show "push_bit (cs - 1) (ucast ((ucast (drop_bit (cs - 1) off OR 1) :: 32 word) AND NOT 1) :: 64 word) = off"
  proof (rule bit_eqI)
    fix i
    assume "possible_bit TYPE(64 word) i"
    then have i64: "i < 64" by simp
    show "bit (push_bit (cs - 1) (ucast ((ucast (drop_bit (cs - 1) off OR 1) :: 32 word) AND NOT 1) :: 64 word)) i = bit off i"
    proof (cases "bit off i")
      case True
      then have "cs \<le> i" "i < cs + 31" using lo [of i] hi [of i] by (force simp: not_le [symmetric])+
      with True i64 cs show ?thesis by (auto simp: bit_simps)
    next
      case False
      with cs show ?thesis by (auto simp: bit_simps)
    qed
  qed
qed

section \<open>Encoding and decoding the scan start\<close>

lemma aligned_low_bits:
  fixes offset :: "64 word"
  assumes "IS_ALIGNED offset (GENCGC_PAGE_BYTES cfg)" and "i < GENCGC_CARD_SHIFT cfg"
  shows "\<not> bit offset i"
proof -
  from assms(1) have "offset AND mask (GENCGC_CARD_SHIFT cfg) = 0"
    by (simp add: IS_ALIGNED_def GENCGC_PAGE_BYTES_def mask_eq_decr_exp)
  then show ?thesis using assms(2) by (rule low_bits_zero)
qed

lemma pt_get_after_set:
  assumes "in_table page_table index"
  shows "\<exists>pt'. pt_set_scan_start page_table index v = Inr pt' \<and>
           (\<exists>pg. pt_get pt' index = Inr pg \<and> scan_start_offset_field pg = v)"
proof -
  from assms have "nat index < length page_table"
    by (simp add: in_table_def nat_less_iff)
  with assms show ?thesis
    by (simp add: pt_set_scan_start_def pt_get_def in_table_def)
qed

text \<open>
  What the encoder stores for a multiple of two words within the span: a value other than
  the sentinel, from which the arithmetic of the decoder gets the offset back, and which
  is zero for the offset zero only.
\<close>

lemma encoder_stores:
  assumes cs: "1 \<le> GENCGC_CARD_SHIFT cfg"
    and idx: "in_table page_table index"
    and dw: "2 ^ (WORD_SHIFT cfg + 1) dvd unat offset"
    and span: "within_span cfg offset"
  shows "\<exists>pt' pg. set_page_scan_start_offset cfg page_table index offset = Inr pt' \<and>
           pt_get pt' index = Inr pg \<and>
           scan_start_offset_field pg \<noteq> SCAN_START_OFS_MAX \<and>
           push_bit (if scan_start_offset_field pg AND 1 \<noteq> 0
                     then GENCGC_CARD_SHIFT cfg - 1 else WORD_SHIFT cfg)
                    (ucast (scan_start_offset_field pg AND NOT 1)) = offset \<and>
           (scan_start_offset_field pg = 0 \<longleftrightarrow> offset = 0)"
proof (cases "offset \<noteq> 0 \<and> IS_ALIGNED offset (GENCGC_PAGE_BYTES cfg)")
  case True
  let ?sc = "drop_bit (GENCGC_CARD_SHIFT cfg - 1) offset OR 1"
  from True have lo: "\<And>i. i < GENCGC_CARD_SHIFT cfg \<Longrightarrow> \<not> bit offset i"
    using aligned_low_bits by blast
  from True span have "unat offset div 2 ^ GENCGC_CARD_SHIFT cfg < 2 ^ 31 - 1"
    by (auto simp: within_span_def split: if_splits)
  then have pages: "unat (drop_bit (GENCGC_CARD_SHIFT cfg) offset) < 2 ^ 31 - 1"
    by (simp add: unat_drop_bit_eq drop_bit_nat_def)
  note rt = aligned_rt [where cs = "GENCGC_CARD_SHIFT cfg" and off = offset, OF cs lo pages]
  from pt_get_after_set [OF idx, of "ucast ?sc"] obtain pt' pg
    where pt': "pt_set_scan_start page_table index (ucast ?sc) = Inr pt'"
      and pg: "pt_get pt' index = Inr pg" "scan_start_offset_field pg = ucast ?sc"
    by blast
  from True rt(1) pt' have "set_page_scan_start_offset cfg page_table index offset = Inr pt'"
    by (simp add: set_page_scan_start_offset_def SCAN_START_OFS_MAX_def)
  moreover from rt(3) have "(ucast ?sc :: 32 word) \<noteq> 0"
    by auto
  ultimately show ?thesis
    using True pg rt(2,3,4) by (auto simp: SCAN_START_OFS_MAX_def)
next
  case False
  let ?sc = "drop_bit (WORD_SHIFT cfg) offset OR 0"
  from dw have "offset AND mask (WORD_SHIFT cfg + 1) = 0"
    by (simp only: and_mask_dvd_nat)
  then have lo: "\<And>i. i \<le> WORD_SHIFT cfg \<Longrightarrow> \<not> bit offset i"
    by (rule low_bits_zero) simp
  from False span have "unat offset div 2 ^ WORD_SHIFT cfg < 2 ^ 32"
    by (auto simp: within_span_def split: if_splits)
  then have "unat (drop_bit (WORD_SHIFT cfg) offset) < 2 ^ 32"
    by (simp add: unat_drop_bit_eq drop_bit_nat_def)
  then have "\<And>i. 32 \<le> i \<Longrightarrow> \<not> bit (drop_bit (WORD_SHIFT cfg) offset) i"
    by (rule high_bits_zero)
  then have hi: "\<And>i. WORD_SHIFT cfg + 32 \<le> i \<Longrightarrow> \<not> bit offset i"
  proof -
    fix i
    assume a: "WORD_SHIFT cfg + 32 \<le> i"
      and b: "\<And>i. 32 \<le> i \<Longrightarrow> \<not> bit (drop_bit (WORD_SHIFT cfg) offset) i"
    from b [of "i - WORD_SHIFT cfg"] a show "\<not> bit offset i" by (simp add: bit_simps)
  qed
  note rt = unaligned_rt [where ws = "WORD_SHIFT cfg" and off = offset, OF lo hi]
  from pt_get_after_set [OF idx, of "ucast ?sc"] obtain pt' pg
    where pt': "pt_set_scan_start page_table index (ucast ?sc) = Inr pt'"
      and pg: "pt_get pt' index = Inr pg" "scan_start_offset_field pg = ucast ?sc"
    by blast
  from False rt(1) pt' have "set_page_scan_start_offset cfg page_table index offset = Inr pt'"
    by (auto simp add: set_page_scan_start_offset_def SCAN_START_OFS_MAX_def)
  moreover have "(ucast ?sc :: 32 word) = 0 \<longleftrightarrow> offset = 0"
  proof
    assume "(ucast ?sc :: 32 word) = 0"
    with rt(4) show "offset = 0" by simp
  next
    assume "offset = 0"
    then show "(ucast ?sc :: 32 word) = 0" by simp
  qed
  ultimately show ?thesis
    using pg rt(2,3,4) by (auto simp: SCAN_START_OFS_MAX_def)
qed

text \<open>
  C1, as amended. The claim asks for multiples of the word size; the encoder scales an
  offset that is not page-aligned by \<^verbatim>\<open>WORD_SHIFT\<close> and then uses the lowest bit of the
  stored value as the scale bit, so the offset must be a multiple of two words. For every
  such offset within the span, and every page of the table, the decoder returns the offset
  that the encoder has stored.
\<close>

theorem scan_start_offset_roundtrip:
  assumes cs: "1 \<le> GENCGC_CARD_SHIFT cfg"
    and idx: "in_table page_table index"
    and dw: "2 ^ (WORD_SHIFT cfg + 1) dvd unat offset"
    and span: "within_span cfg offset"
  shows "\<exists>pt'. set_page_scan_start_offset cfg page_table index offset = Inr pt' \<and>
           page_scan_start_offset cfg pt' index = Inr offset"
proof -
  from encoder_stores [OF assms] obtain pt' pg
    where stored: "set_page_scan_start_offset cfg page_table index offset = Inr pt'"
      and pg: "pt_get pt' index = Inr pg"
      and no_sentinel: "scan_start_offset_field pg \<noteq> SCAN_START_OFS_MAX"
      and decoded: "push_bit (if scan_start_offset_field pg AND 1 \<noteq> 0
                     then GENCGC_CARD_SHIFT cfg - 1 else WORD_SHIFT cfg)
                    (ucast (scan_start_offset_field pg AND NOT 1)) = offset"
    by blast
  from pg no_sentinel decoded have "page_scan_start_offset cfg pt' index = Inr offset"
    by (simp add: page_scan_start_offset_def)
  with stored show ?thesis by blast
qed

theorem scan_start_offset_roundtrip_witness:
  "1 \<le> GENCGC_CARD_SHIFT scenario_config \<and> in_table [free_page] 0 \<and>
   2 ^ (WORD_SHIFT scenario_config + 1) dvd unat (8192 :: 64 word) \<and>
   within_span scenario_config 8192 \<and>
   (\<exists>pt'. set_page_scan_start_offset scenario_config [free_page] 0 8192 = Inr pt' \<and>
          page_scan_start_offset scenario_config pt' 0 = Inr 8192)"
proof -
  have h: "1 \<le> GENCGC_CARD_SHIFT scenario_config" "in_table [free_page] 0"
    "2 ^ (WORD_SHIFT scenario_config + 1) dvd unat (8192 :: 64 word)"
    "within_span scenario_config 8192"
    by (simp_all add: scenario_config_def in_table_def within_span_def IS_ALIGNED_def
        GENCGC_PAGE_BYTES_def)
  from scan_start_offset_roundtrip [OF h] h show ?thesis by blast
qed

text \<open>
  C1, as stated, fails: 8 is a multiple of the word size and within the span, the encoder
  stores 1 for it, and the decoder reads 1 as a page-scaled offset of zero pages.
\<close>

theorem scan_start_offset_roundtrip_counterexample:
  "2 ^ WORD_SHIFT scenario_config dvd unat (8 :: 64 word) \<and>
   within_span scenario_config 8 \<and>
   set_page_scan_start_offset scenario_config [free_page] 0 8
     = Inr [free_page\<lparr>scan_start_offset_field := 1\<rparr>] \<and>
   page_scan_start_offset scenario_config [free_page\<lparr>scan_start_offset_field := 1\<rparr>] 0 = Inr 0 \<and>
   (0 :: 64 word) \<noteq> 8"
  by (simp add: set_page_scan_start_offset_def scenario_config_def free_page_def IS_ALIGNED_def
      GENCGC_PAGE_BYTES_def SCAN_START_OFS_MAX_def pt_set_scan_start_def in_table_def Let_def
      unsigned_minus_1_eq_mask mask_eq_exp_minus_1 gc_assert_def within_span_def
      page_scan_start_offset_def pt_get_def)

section \<open>Decoding a clipped scan start\<close>

lemma lookback_loop:
  assumes "lookback page_table p d"
  shows "scan_start_loop page_table index (index - p) = Inr (index - p + d)"
  using assms
proof (induction arbitrary: index rule: lookback.induct)
  case (final page_table p pg)
  then show ?case
    by (subst scan_start_loop.simps) simp
next
  case (further page_table p pg d)
  let ?s = "uint (drop_bit 1 (scan_start_offset_field pg))"
  from further.IH [of index]
  have "scan_start_loop page_table index (index - p + ?s) = Inr (index - p + ?s + d)"
    by (simp add: algebra_simps)
  with further.hyps(1,2) show ?case
    by (subst scan_start_loop.simps) (simp add: algebra_simps)
qed

lemma loop_lookback:
  "scan_start_loop page_table index tot = Inr r \<Longrightarrow> lookback page_table (index - tot) (r - tot)"
proof (induction page_table index tot rule: scan_start_loop.induct)
  case (1 page_table index tot)
  from "1.prems" obtain pg where pg: "pt_get page_table (index - tot) = Inr pg"
    by (subst (asm) scan_start_loop.simps) (auto split: sum.splits)
  let ?s = "uint (drop_bit 1 (scan_start_offset_field pg))"
  show ?case
  proof (cases "scan_start_offset_field pg = SCAN_START_OFS_MAX")
    case True
    with "1.prems" pg have "scan_start_loop page_table index (tot + ?s) = Inr r"
      by (subst (asm) scan_start_loop.simps) simp
    with "1.IH" [OF pg True] have "lookback page_table (index - (tot + ?s)) (r - (tot + ?s))"
      by simp
    then have "lookback page_table (index - tot - ?s) (r - tot - ?s)"
      by (simp add: algebra_simps)
    from lookback.further [OF pg True this] show ?thesis by simp
  next
    case False
    with "1.prems" pg have "r = tot + ?s"
      by (subst (asm) scan_start_loop.simps) simp
    with lookback.final [OF pg False] show ?thesis by simp
  qed
qed

text \<open>
  C2. For a page that stores the sentinel, the decoder returns a value exactly when the
  walk of the specification ends inside the table, and the value is the sum of the page
  distances shifted left by \<^verbatim>\<open>GENCGC_CARD_SHIFT\<close>.
\<close>

theorem sentinel_offset_by_lookback:
  assumes "pt_get page_table index = Inr pg"
    and "scan_start_offset_field pg = SCAN_START_OFS_MAX"
  shows "page_scan_start_offset cfg page_table index = Inr bytes \<longleftrightarrow>
         (\<exists>d. lookback page_table index d \<and>
              bytes = push_bit (GENCGC_CARD_SHIFT cfg) (word_of_int d))"
proof
  assume "page_scan_start_offset cfg page_table index = Inr bytes"
  with assms obtain tot where tot: "scan_start_loop page_table index 0 = Inr tot"
    and bytes: "bytes = push_bit (GENCGC_CARD_SHIFT cfg) (word_of_int tot)"
    by (auto simp: page_scan_start_offset_def scan_start_offset_iterated_def split: sum.splits)
  from loop_lookback [OF tot] have "lookback page_table index tot" by simp
  with bytes show "\<exists>d. lookback page_table index d \<and>
      bytes = push_bit (GENCGC_CARD_SHIFT cfg) (word_of_int d)" by blast
next
  assume "\<exists>d. lookback page_table index d \<and>
      bytes = push_bit (GENCGC_CARD_SHIFT cfg) (word_of_int d)"
  then obtain d where d: "lookback page_table index d"
    and bytes: "bytes = push_bit (GENCGC_CARD_SHIFT cfg) (word_of_int d)" by blast
  from lookback_loop [OF d, of index] have "scan_start_loop page_table index 0 = Inr d" by simp
  with assms bytes show "page_scan_start_offset cfg page_table index = Inr bytes"
    by (simp add: page_scan_start_offset_def scan_start_offset_iterated_def)
qed

lemma large_table_get:
  "pt_get large_table 2147483647 = Inr (free_page\<lparr>scan_start_offset_field := SCAN_START_OFS_MAX\<rparr>)"
  "pt_get large_table 0 = Inr free_page"
  by (simp_all add: large_table_def pt_get_def in_table_def)

theorem sentinel_offset_by_lookback_witness:
  "pt_get large_table 2147483647 = Inr (free_page\<lparr>scan_start_offset_field := SCAN_START_OFS_MAX\<rparr>) \<and>
   page_scan_start_offset scenario_config large_table 2147483647
     = Inr (push_bit (GENCGC_CARD_SHIFT scenario_config) 2147483647)"
proof -
  let ?pg = "free_page\<lparr>scan_start_offset_field := SCAN_START_OFS_MAX\<rparr>"
  have s: "uint (drop_bit 1 (scan_start_offset_field ?pg)) = 2147483647"
    by (simp add: SCAN_START_OFS_MAX_def mask_eq_exp_minus_1 uint_mask_eq)
  have z: "uint (drop_bit 1 (scan_start_offset_field free_page)) = 0"
    by (simp add: free_page_def)
  have "lookback large_table 0 0"
    using lookback.final [OF large_table_get(2)] z by (simp add: free_page_def SCAN_START_OFS_MAX_def)
  then have "lookback large_table (2147483647 - uint (drop_bit 1 (scan_start_offset_field ?pg))) 0"
    by (simp only: s) simp
  from lookback.further [OF large_table_get(1) _ this]
  have "lookback large_table 2147483647 2147483647"
    using s by simp
  with sentinel_offset_by_lookback [OF large_table_get(1), of scenario_config
      "push_bit (GENCGC_CARD_SHIFT scenario_config) 2147483647"] large_table_get(1)
  show ?thesis by auto
qed

section \<open>Claiming static space\<close>

lemma bump_loop_pinned:
  assumes "failed_swaps cfg nbytes claimed_ptr pre"
    and "cannot_advance cfg nbytes (last (claimed_ptr # pre)) \<or> rest = []
         \<or> hd rest = last (claimed_ptr # pre)"
  shows "bump_loop cfg nbytes claimed_ptr (pre @ rest) =
         outcome cfg nbytes (last (claimed_ptr # pre))"
  using assms
proof (induction pre arbitrary: claimed_ptr)
  case Nil
  then show ?case
    by (cases rest) (auto simp: Let_def cannot_advance_def outcome_def)
next
  case (Cons a pre)
  from Cons.prems(1) have step: "\<not> cannot_advance cfg nbytes claimed_ptr" "a \<noteq> claimed_ptr"
    and later: "failed_swaps cfg nbytes a pre"
    by simp_all
  from step have "bump_loop cfg nbytes claimed_ptr ((a # pre) @ rest) =
      bump_loop cfg nbytes a (pre @ rest)"
    by (auto simp: Let_def cannot_advance_def)
  moreover from Cons.prems(2) have "cannot_advance cfg nbytes (last (a # pre)) \<or> rest = []
      \<or> hd rest = last (a # pre)"
    by simp
  from Cons.IH [OF later this]
  have "bump_loop cfg nbytes a (pre @ rest) = outcome cfg nbytes (last (a # pre))" .
  ultimately show ?case by simp
qed

lemma failed_swaps_exist:
  "\<exists>pre rest. others = pre @ rest \<and> failed_swaps cfg nbytes claimed_ptr pre \<and>
     (cannot_advance cfg nbytes (last (claimed_ptr # pre)) \<or> rest = []
      \<or> hd rest = last (claimed_ptr # pre))"
proof (induction others arbitrary: claimed_ptr)
  case Nil
  have "[] = [] @ ([] :: 64 word list) \<and> failed_swaps cfg nbytes claimed_ptr [] \<and>
     (cannot_advance cfg nbytes (last (claimed_ptr # [])) \<or> ([] :: 64 word list) = []
      \<or> hd [] = last (claimed_ptr # []))"
    by simp
  then show ?case by blast
next
  case (Cons a others)
  show ?case
  proof (cases "cannot_advance cfg nbytes claimed_ptr \<or> a = claimed_ptr")
    case True
    then have "a # others = [] @ (a # others) \<and> failed_swaps cfg nbytes claimed_ptr [] \<and>
       (cannot_advance cfg nbytes (last (claimed_ptr # [])) \<or> a # others = []
        \<or> hd (a # others) = last (claimed_ptr # []))"
      by auto
    then show ?thesis by blast
  next
    case False
    from Cons.IH [of a] obtain pre rest where split: "others = pre @ rest"
      and swaps: "failed_swaps cfg nbytes a pre"
      and stop: "cannot_advance cfg nbytes (last (a # pre)) \<or> rest = []
        \<or> hd rest = last (a # pre)"
      by blast
    from False split swaps stop
    have "a # others = (a # pre) @ rest \<and> failed_swaps cfg nbytes claimed_ptr (a # pre) \<and>
       (cannot_advance cfg nbytes (last (claimed_ptr # a # pre)) \<or> rest = []
        \<or> hd rest = last (claimed_ptr # a # pre))"
      by simp
    then show ?thesis by blast
  qed
qed

text \<open>
  What the two outcomes mean for a byte count that is not negative: the test of the loop
  fails the claim exactly when the frontier advanced in true integers lies beyond
  \<^verbatim>\<open>STATIC_SPACE_END\<close>, whether or not the 64-bit addition has wrapped.
\<close>

lemma bump_test_nonnegative:
  fixes f :: "64 word" and nbytes :: "32 word"
  assumes "0 \<le> sint nbytes"
  shows "cannot_advance cfg nbytes f
         \<longleftrightarrow> uint f + sint nbytes > uint (STATIC_SPACE_END cfg)"
proof -
  have n: "uint (scast nbytes :: 64 word) = sint nbytes"
  proof -
    have "sint nbytes < 2 ^ 31" using sint_lt [of nbytes] by simp
    with assms have tb: "take_bit 64 (sint nbytes) = sint nbytes"
      by (simp add: take_bit_int_eq_self)
    have "uint (scast nbytes :: 64 word) = uint (word_of_int (sint nbytes) :: 64 word)"
      by simp
    also have "\<dots> = take_bit LENGTH(64) (sint nbytes)"
      by (rule uint_word_of_int_eq)
    also have "\<dots> = sint nbytes"
      using tb by simp
    finally show ?thesis .
  qed
  have lt: "sint nbytes < 2 ^ 31" using sint_lt [of nbytes] by simp
  have f: "0 \<le> uint f" "uint f < 2 ^ 64" using uint_lt2p [of f] by simp_all
  have e: "uint (STATIC_SPACE_END cfg) < 2 ^ 64" using uint_lt2p [of "STATIC_SPACE_END cfg"] by simp
  have sum: "uint (f + scast nbytes) = (uint f + sint nbytes) mod 2 ^ 64"
    by (simp add: uint_word_ariths n)
  show ?thesis
  proof (cases "uint f + sint nbytes < 2 ^ 64")
    case True
    with assms f have "uint (f + scast nbytes) = uint f + sint nbytes"
      by (simp add: sum)
    with assms show ?thesis by (simp add: cannot_advance_def word_less_def)
  next
    case False
    with lt f have "(uint f + sint nbytes - 2 ^ 64) mod 2 ^ 64 = uint f + sint nbytes - 2 ^ 64"
      by (intro mod_pos_pos_trivial) simp_all
    then have "(uint f + sint nbytes) mod 2 ^ 64 = uint f + sint nbytes - 2 ^ 64"
      by simp
    then have "uint (f + scast nbytes) = uint f + sint nbytes - 2 ^ 64"
      by (simp add: sum)
    with False lt e show ?thesis by (simp add: cannot_advance_def word_less_def)
  qed
qed

text \<open>
  C3, as amended. A byte count that is not a multiple of the alignment does not yield a
  null result: the assertion stops the process. For an aligned byte count the call
  returns, and its result is the outcome at the frontier it has read last. That frontier
  is pinned by the swaps: the call has gone through the values \<open>pre\<close> of failed swaps, one
  after the other, and at the last of them (the frontier at entry when \<open>pre\<close> is empty)
  either the advance is impossible, or no other thread interferes any more, or the swap
  finds the very frontier that was read. The result is then null with the frontier left
  as read when the advance is impossible, and else that frontier, with the frontier
  advanced by exactly the byte count.
\<close>

theorem atomic_bump_static_space_free_ptr_result:
  "(nbytes AND LOWTAG_MASK cfg = 0 \<longrightarrow>
      (atomic_bump_static_space_free_ptr cfg nbytes static_space_free_pointer others = Inr r
       \<longleftrightarrow>
       (\<exists>pre rest. others = pre @ rest \<and>
          failed_swaps cfg nbytes static_space_free_pointer pre \<and>
          (cannot_advance cfg nbytes (last (static_space_free_pointer # pre)) \<or> rest = []
           \<or> hd rest = last (static_space_free_pointer # pre)) \<and>
          r = outcome cfg nbytes (last (static_space_free_pointer # pre))))) \<and>
   (nbytes AND LOWTAG_MASK cfg \<noteq> 0 \<and> \<not> NDEBUG cfg \<longrightarrow>
      atomic_bump_static_space_free_ptr cfg nbytes static_space_free_pointer others =
        Inl GC_invariant_lost)"
proof (intro conjI impI)
  assume "nbytes AND LOWTAG_MASK cfg = 0"
  then have run: "atomic_bump_static_space_free_ptr cfg nbytes static_space_free_pointer others =
      Inr (bump_loop cfg nbytes static_space_free_pointer others)"
    by (simp add: atomic_bump_static_space_free_ptr_def gc_assert_def)
  show "atomic_bump_static_space_free_ptr cfg nbytes static_space_free_pointer others = Inr r
       \<longleftrightarrow>
       (\<exists>pre rest. others = pre @ rest \<and>
          failed_swaps cfg nbytes static_space_free_pointer pre \<and>
          (cannot_advance cfg nbytes (last (static_space_free_pointer # pre)) \<or> rest = []
           \<or> hd rest = last (static_space_free_pointer # pre)) \<and>
          r = outcome cfg nbytes (last (static_space_free_pointer # pre)))"
  proof
    assume "atomic_bump_static_space_free_ptr cfg nbytes static_space_free_pointer others = Inr r"
    with run have r: "r = bump_loop cfg nbytes static_space_free_pointer others" by simp
    from failed_swaps_exist [of others cfg nbytes static_space_free_pointer]
    obtain pre rest where split: "others = pre @ rest"
      and swaps: "failed_swaps cfg nbytes static_space_free_pointer pre"
      and stop: "cannot_advance cfg nbytes (last (static_space_free_pointer # pre)) \<or> rest = []
        \<or> hd rest = last (static_space_free_pointer # pre)"
      by blast
    from bump_loop_pinned [OF swaps stop] r split
    have "r = outcome cfg nbytes (last (static_space_free_pointer # pre))" by simp
    with split swaps stop show "\<exists>pre rest. others = pre @ rest \<and>
          failed_swaps cfg nbytes static_space_free_pointer pre \<and>
          (cannot_advance cfg nbytes (last (static_space_free_pointer # pre)) \<or> rest = []
           \<or> hd rest = last (static_space_free_pointer # pre)) \<and>
          r = outcome cfg nbytes (last (static_space_free_pointer # pre))"
      by blast
  next
    assume "\<exists>pre rest. others = pre @ rest \<and>
          failed_swaps cfg nbytes static_space_free_pointer pre \<and>
          (cannot_advance cfg nbytes (last (static_space_free_pointer # pre)) \<or> rest = []
           \<or> hd rest = last (static_space_free_pointer # pre)) \<and>
          r = outcome cfg nbytes (last (static_space_free_pointer # pre))"
    then obtain pre rest where split: "others = pre @ rest"
      and swaps: "failed_swaps cfg nbytes static_space_free_pointer pre"
      and stop: "cannot_advance cfg nbytes (last (static_space_free_pointer # pre)) \<or> rest = []
        \<or> hd rest = last (static_space_free_pointer # pre)"
      and r: "r = outcome cfg nbytes (last (static_space_free_pointer # pre))"
      by blast
    from bump_loop_pinned [OF swaps stop] split r run
    show "atomic_bump_static_space_free_ptr cfg nbytes static_space_free_pointer others = Inr r"
      by simp
  qed
next
  assume "nbytes AND LOWTAG_MASK cfg \<noteq> 0 \<and> \<not> NDEBUG cfg"
  then show "atomic_bump_static_space_free_ptr cfg nbytes static_space_free_pointer others =
      Inl GC_invariant_lost"
    by (simp add: atomic_bump_static_space_free_ptr_def gc_assert_def)
qed

text \<open>
  The scenario of the specification, from a cold start at \<open>0x50000000\<close> with 8192 bytes
  of static space, and three runs against another thread: one that has claimed 4096
  bytes before the swap, one whose swap finds the frontier unchanged, and one that has
  taken the rest of the space.
\<close>

theorem atomic_bump_static_space_free_ptr_result_witness:
  "4096 AND LOWTAG_MASK scenario_config = 0 \<and>
   atomic_bump_static_space_free_ptr scenario_config 4096 0x50000000 [] = Inr (0x50000000, 0x50001000) \<and>
   atomic_bump_static_space_free_ptr scenario_config 4096 0x50000000 [0x50001000]
     = Inr (0x50001000, 0x50002000) \<and>
   atomic_bump_static_space_free_ptr scenario_config 4096 0x50000000 [0x50000000, 0x50002000]
     = Inr (0x50000000, 0x50001000) \<and>
   atomic_bump_static_space_free_ptr scenario_config 4096 0x50000000 [0x50001000, 0x50002000]
     = Inr (0, 0x50002000)"
proof -
  have a: "4096 AND LOWTAG_MASK scenario_config = 0"
    by (simp add: scenario_config_def)
  have o: "outcome scenario_config 4096 0x50000000 = (0x50000000, 0x50001000)"
    "outcome scenario_config 4096 0x50001000 = (0x50001000, 0x50002000)"
    "outcome scenario_config 4096 0x50002000 = (0, 0x50002000)"
    by (simp_all add: outcome_def cannot_advance_def scenario_config_def)
  have c: "\<not> cannot_advance scenario_config 4096 0x50000000"
    "\<not> cannot_advance scenario_config 4096 0x50001000"
    "cannot_advance scenario_config 4096 0x50002000"
    by (simp_all add: cannot_advance_def scenario_config_def)
  note t = atomic_bump_static_space_free_ptr_result [THEN conjunct1, rule_format, OF a, THEN iffD2]
  have "atomic_bump_static_space_free_ptr scenario_config 4096 0x50000000 []
      = Inr (0x50000000, 0x50001000)"
    by (rule t, rule exI [of _ "[]"], rule exI [of _ "[]"]) (simp add: o)
  moreover have "atomic_bump_static_space_free_ptr scenario_config 4096 0x50000000 [0x50001000]
      = Inr (0x50001000, 0x50002000)"
    by (rule t, rule exI [of _ "[0x50001000]"], rule exI [of _ "[]"]) (simp add: o c)
  moreover have "atomic_bump_static_space_free_ptr scenario_config 4096 0x50000000
      [0x50000000, 0x50002000] = Inr (0x50000000, 0x50001000)"
    by (rule t, rule exI [of _ "[]"], rule exI [of _ "[0x50000000, 0x50002000]"]) (simp add: o c)
  moreover have "atomic_bump_static_space_free_ptr scenario_config 4096 0x50000000
      [0x50001000, 0x50002000] = Inr (0, 0x50002000)"
    by (rule t, rule exI [of _ "[0x50001000, 0x50002000]"], rule exI [of _ "[]"]) (simp add: o c)
  ultimately show ?thesis using a by simp
qed

text \<open>
  C3, as stated, fails: 4 is not a multiple of the alignment 16. With assertions compiled
  in the call is fatal; with \<^verbatim>\<open>NDEBUG\<close> it claims the 4 bytes. In neither build is the
  result null.
\<close>

theorem atomic_bump_static_space_free_ptr_counterexample:
  "4 AND LOWTAG_MASK scenario_config \<noteq> 0 \<and>
   atomic_bump_static_space_free_ptr scenario_config 4 0x50000000 [] = Inl GC_invariant_lost \<and>
   atomic_bump_static_space_free_ptr (scenario_config\<lparr>NDEBUG := True\<rparr>) 4 0x50000000 []
     = Inr (0x50000000, 0x50000004)"
  by (simp add: atomic_bump_static_space_free_ptr_def gc_assert_def scenario_config_def Let_def)

section \<open>Block boundaries\<close>

lemma starts_block_stored_field:
  assumes "pt_get page_table p = Inr pg"
  shows "page_starts_contiguous_block_p page_table p = Inr (scan_start_offset_field pg = 0)"
  using assms by (simp add: page_starts_contiguous_block_p_def)

lemma push_bit_zero_iff:
  fixes x :: "32 word"
  assumes "k \<le> 32"
  shows "push_bit k (ucast x :: 64 word) = 0 \<longleftrightarrow> x = 0"
proof
  assume z: "push_bit k (ucast x :: 64 word) = 0"
  show "x = 0"
  proof (rule bit_eqI)
    fix j
    assume "possible_bit TYPE(32 word) j"
    then have j: "j < 32" by simp
    from z have "\<not> bit (push_bit k (ucast x :: 64 word)) (j + k)" by simp
    with j assms show "bit x j = bit (0 :: 32 word) j"
      by (simp add: bit_simps)
  qed
next
  assume "x = 0" then show "push_bit k (ucast x :: 64 word) = 0" by simp
qed

lemma and_not_one_zero_iff:
  fixes f :: "32 word"
  shows "f AND NOT 1 = 0 \<longleftrightarrow> f = 0 \<or> f = 1"
proof
  assume z: "f AND NOT 1 = 0"
  have "f = (f AND NOT 1) OR (f AND 1)"
    by (rule bit_eqI) (auto simp: bit_simps)
  with z have "f = f AND 1" by simp
  then have f1: "f = f AND 1" .
  show "f = 0 \<or> f = 1"
  proof (cases "even f")
    case True
    then have "f AND 1 = 0" by (simp add: and_one_eq even_iff_mod_2_eq_zero)
    with f1 show ?thesis by simp
  next
    case False
    then have "f AND 1 = 1" by (simp add: and_one_eq odd_iff_mod_2_eq_one)
    with f1 show ?thesis by simp
  qed
next
  assume "f = 0 \<or> f = 1" then show "f AND NOT 1 = 0" by auto
qed


text \<open>
  The stored field and the decoded offset. For a page that does not store the sentinel
  the decoder returns zero for the stored values 0 and 1 and for no other, so on every
  page that stores neither 1 nor the sentinel the field and the decoded offset agree on
  whether the page starts a block.
\<close>

lemma decoded_zero_iff:
  assumes pg: "pt_get page_table p = Inr pg"
    and ns: "scan_start_offset_field pg \<noteq> SCAN_START_OFS_MAX"
    and cs: "GENCGC_CARD_SHIFT cfg \<le> 33" and ws: "WORD_SHIFT cfg \<le> 32"
  shows "page_scan_start_offset cfg page_table p = Inr 0 \<longleftrightarrow>
         scan_start_offset_field pg = 0 \<or> scan_start_offset_field pg = 1"
proof -
  let ?k = "if scan_start_offset_field pg AND 1 \<noteq> 0
            then GENCGC_CARD_SHIFT cfg - 1 else WORD_SHIFT cfg"
  from cs ws have k: "?k \<le> 32" by auto
  from pg ns have "page_scan_start_offset cfg page_table p =
      Inr (push_bit ?k (ucast (scan_start_offset_field pg AND NOT 1)))"
    by (simp add: page_scan_start_offset_def)
  then show ?thesis
    by (simp only: sum.inject push_bit_zero_iff [OF k] and_not_one_zero_iff)
qed

lemma starts_block_by_field:
  assumes "pt_get page_table p = Inr pg"
    and "scan_start_offset_field pg \<noteq> SCAN_START_OFS_MAX"
    and "scan_start_offset_field pg \<noteq> 1"
    and "GENCGC_CARD_SHIFT cfg \<le> 33" and "WORD_SHIFT cfg \<le> 32"
  shows "page_starts_contiguous_block_p page_table p
         = Inr (page_scan_start_offset cfg page_table p = Inr 0)"
  using assms decoded_zero_iff [of page_table p pg cfg]
  by (simp add: page_starts_contiguous_block_p_def)





lemma ends_block_answer_eq:
  assumes "pt_get page_table p = Inr pg" and "in_table page_table (p + 1)"
  shows "ends_block_answer cfg page_table p =
         Inr (words_used_field pg < GENCGC_PAGE_WORDS cfg
              \<or> page_starts_contiguous_block_p page_table (p + 1) = Inr True)"
  using assms
  by (simp add: ends_block_answer_def page_starts_contiguous_block_p_def pt_get_def)

lemma ends_block_safe_answer_returns:
  assumes "pt_get page_table p = Inr pg" and "in_table page_table (p + 1)"
  shows "\<exists>safe. ends_block_safe_answer cfg next_free_page page_table p g = Inr safe"
  using assms
  by (auto simp: ends_block_safe_answer_def page_starts_contiguous_block_p_def pt_get_def)

text \<open>
  C4. For a page of the table that has a next page, the function answers that the page
  is not fully used or the next page starts its own block. The one other outcome exists
  only in a build with \<^verbatim>\<open>DEBUG\<close> and assertions: there the cross-check may stop the
  process instead.
\<close>

theorem page_ends_contiguous_block_p_iff:
  assumes "pt_get page_table p = Inr pg" and "in_table page_table (p + 1)"
  shows "page_ends_contiguous_block_p cfg next_free_page page_table p g =
           Inr (words_used_field pg < GENCGC_PAGE_WORDS cfg
                \<or> page_starts_contiguous_block_p page_table (p + 1) = Inr True)
         \<or> (DEBUG cfg \<and> \<not> NDEBUG cfg \<and>
            page_ends_contiguous_block_p cfg next_free_page page_table p g
              = Inl GC_invariant_lost)"
proof (cases "DEBUG cfg")
  case False
  with ends_block_answer_eq [OF assms] show ?thesis
    by (simp add: page_ends_contiguous_block_p_def)
next
  case True
  from ends_block_safe_answer_returns [OF assms] obtain safe
    where "ends_block_safe_answer cfg next_free_page page_table p g = Inr safe" by blast
  with True ends_block_answer_eq [OF assms] show ?thesis
    by (simp add: page_ends_contiguous_block_p_def gc_assert_def)
qed

theorem page_ends_contiguous_block_p_iff_witness:
  "pt_get [free_page, free_page] 0 = Inr free_page \<and> in_table [free_page, free_page] (0 + 1) \<and>
   page_ends_contiguous_block_p scenario_config 0 [free_page, free_page] 0 0 = Inr True"
proof -
  have a: "pt_get [free_page, free_page] 0 = Inr free_page"
    and b: "in_table [free_page, free_page] (0 + 1)"
    by (simp_all add: pt_get_def in_table_def)
  from page_ends_contiguous_block_p_iff [OF a b, of scenario_config 0 0] a b
  show ?thesis by (simp add: scenario_config_def free_page_def)
qed

text \<open>
  C10. Without \<^verbatim>\<open>DEBUG\<close> the generation argument is not looked at.
\<close>

theorem page_ends_contiguous_block_p_generation:
  assumes "\<not> DEBUG cfg"
  shows "page_ends_contiguous_block_p cfg next_free_page page_table p g1 =
         page_ends_contiguous_block_p cfg next_free_page page_table p g2"
  using assms by (simp add: page_ends_contiguous_block_p_def split: sum.splits)

theorem page_ends_contiguous_block_p_generation_witness:
  "\<not> DEBUG scenario_config \<and>
   page_ends_contiguous_block_p scenario_config 0 [free_page, free_page] 0 0 =
   page_ends_contiguous_block_p scenario_config 0 [free_page, free_page] 0 1"
proof -
  have a: "\<not> DEBUG scenario_config" by (simp add: scenario_config_def)
  from page_ends_contiguous_block_p_generation [OF a] a show ?thesis by blast
qed

text \<open>
  With \<^verbatim>\<open>DEBUG\<close> the generation does matter: below, page 0 is full and page 1 continues
  its block. Asked with the generation of page 1 the function answers no; asked with
  another generation the cross-check disagrees and stops the process.
\<close>

lemma page_ends_contiguous_block_p_debug_generation:
  "page_ends_contiguous_block_p (scenario_config\<lparr>DEBUG := True\<rparr>) 2
     [free_page\<lparr>words_used_field := 512\<rparr>,
      free_page\<lparr>scan_start_offset_field := 3, words_used_field := 10\<rparr>, free_page] 0 0
     = Inr False \<and>
   page_ends_contiguous_block_p (scenario_config\<lparr>DEBUG := True\<rparr>) 2
     [free_page\<lparr>words_used_field := 512\<rparr>,
      free_page\<lparr>scan_start_offset_field := 3, words_used_field := 10\<rparr>, free_page] 0 1
     = Inl GC_invariant_lost"
  by (simp add: page_ends_contiguous_block_p_def ends_block_answer_def
      ends_block_safe_answer_def page_starts_contiguous_block_p_def pt_get_def in_table_def
      gc_assert_def scenario_config_def free_page_def)

section \<open>The final page of a block\<close>

lemma block_final_loop_iff:
  assumes "pt_get page_table first = Inr pg"
  shows "block_final_loop cfg next_free_page page_table first l = Inr q \<longleftrightarrow>
         l \<le> q \<and>
         page_ends_contiguous_block_p cfg next_free_page page_table q (gen pg) = Inr True \<and>
         (\<forall>r. l \<le> r \<and> r < q \<longrightarrow>
            page_ends_contiguous_block_p cfg next_free_page page_table r (gen pg) = Inr False)"
  using assms
proof (induction cfg next_free_page page_table first l rule: block_final_loop.induct)
  case (1 cfg next_free_page page_table first l)
  let ?E = "\<lambda>r. page_ends_contiguous_block_p cfg next_free_page page_table r (gen pg)"
  note pg = "1.prems"
  show ?case
  proof (cases "?E l")
    case (Inl e)
    with pg have "block_final_loop cfg next_free_page page_table first l = Inl e"
      by (subst block_final_loop.simps) simp
    moreover have "\<not> (l \<le> q \<and> ?E q = Inr True \<and> (\<forall>r. l \<le> r \<and> r < q \<longrightarrow> ?E r = Inr False))"
    proof
      assume a: "l \<le> q \<and> ?E q = Inr True \<and> (\<forall>r. l \<le> r \<and> r < q \<longrightarrow> ?E r = Inr False)"
      show False
      proof (cases "l = q")
        case True with a Inl show False by simp
      next
        case False with a have "?E l = Inr False" by simp
        with Inl show False by simp
      qed
    qed
    ultimately show ?thesis by simp
  next
    case (Inr ends)
    show ?thesis
    proof (cases ends)
      case True
      with pg Inr have "block_final_loop cfg next_free_page page_table first l = Inr l"
        by (subst block_final_loop.simps) simp
      moreover have "(l \<le> q \<and> ?E q = Inr True \<and> (\<forall>r. l \<le> r \<and> r < q \<longrightarrow> ?E r = Inr False))
          \<longleftrightarrow> l = q"
      proof
        assume a: "l \<le> q \<and> ?E q = Inr True \<and> (\<forall>r. l \<le> r \<and> r < q \<longrightarrow> ?E r = Inr False)"
        show "l = q"
        proof (rule ccontr)
          assume "l \<noteq> q" with a have "?E l = Inr False" by simp
          with Inr True show False by simp
        qed
      next
        assume "l = q" with Inr True show "l \<le> q \<and> ?E q = Inr True \<and> (\<forall>r. l \<le> r \<and> r < q \<longrightarrow> ?E r = Inr False)"
          by auto
      qed
      ultimately show ?thesis by auto
    next
      case False
      with pg Inr have "block_final_loop cfg next_free_page page_table first l =
          block_final_loop cfg next_free_page page_table first (l + 1)"
        by (subst block_final_loop.simps) simp
      moreover from "1.IH" [OF pg Inr _ pg] False
      have "block_final_loop cfg next_free_page page_table first (l + 1) = Inr q \<longleftrightarrow>
            l + 1 \<le> q \<and> ?E q = Inr True \<and> (\<forall>r. l + 1 \<le> r \<and> r < q \<longrightarrow> ?E r = Inr False)"
        by simp
      moreover have "(l + 1 \<le> q \<and> ?E q = Inr True \<and> (\<forall>r. l + 1 \<le> r \<and> r < q \<longrightarrow> ?E r = Inr False))
          \<longleftrightarrow> (l \<le> q \<and> ?E q = Inr True \<and> (\<forall>r. l \<le> r \<and> r < q \<longrightarrow> ?E r = Inr False))"
      proof
        assume a: "l + 1 \<le> q \<and> ?E q = Inr True \<and> (\<forall>r. l + 1 \<le> r \<and> r < q \<longrightarrow> ?E r = Inr False)"
        have "?E r = Inr False" if "l \<le> r" "r < q" for r
        proof (cases "r = l")
          case True with Inr False show ?thesis by simp
        next
          case False with that a show ?thesis by simp
        qed
        with a show "l \<le> q \<and> ?E q = Inr True \<and> (\<forall>r. l \<le> r \<and> r < q \<longrightarrow> ?E r = Inr False)"
          by simp
      next
        assume a: "l \<le> q \<and> ?E q = Inr True \<and> (\<forall>r. l \<le> r \<and> r < q \<longrightarrow> ?E r = Inr False)"
        with Inr False have "l \<noteq> q" by auto
        with a show "l + 1 \<le> q \<and> ?E q = Inr True \<and> (\<forall>r. l + 1 \<le> r \<and> r < q \<longrightarrow> ?E r = Inr False)"
          by simp
      qed
      ultimately show ?thesis by simp
    qed
  qed
qed

lemma scenario_table_encoded:
  "set_page_scan_start_offset scenario_config scenario_table 0 0 = Inr scenario_table \<and>
   set_page_scan_start_offset scenario_config scenario_table 1 4096 = Inr scenario_table \<and>
   set_page_scan_start_offset scenario_config scenario_table 2 8192 = Inr scenario_table"
  by (simp add: set_page_scan_start_offset_def scenario_config_def scenario_table_def
      free_page_def IS_ALIGNED_def GENCGC_PAGE_BYTES_def SCAN_START_OFS_MAX_def
      pt_set_scan_start_def in_table_def Let_def unsigned_minus_1_eq_mask mask_eq_exp_minus_1)

lemma scenario_starts:
  "page_starts_contiguous_block_p scenario_table 0 = Inr True"
  "page_starts_contiguous_block_p scenario_table 1 = Inr False"
  "page_starts_contiguous_block_p scenario_table 2 = Inr False"
  by (simp_all add: page_starts_contiguous_block_p_def pt_get_def in_table_def
      scenario_table_def free_page_def)

lemma scenario_ends:
  "page_ends_contiguous_block_p scenario_config 3 scenario_table 0 g = Inr False"
  "page_ends_contiguous_block_p scenario_config 3 scenario_table 1 g = Inr False"
  "page_ends_contiguous_block_p scenario_config 3 scenario_table 2 g = Inr True"
  by (simp_all add: page_ends_contiguous_block_p_def ends_block_answer_def
      page_starts_contiguous_block_p_def pt_get_def in_table_def
      scenario_table_def scenario_config_def free_page_def)

lemma scenario_final_page:
  "contiguous_block_final_page scenario_config 3 scenario_table 0 = Inr 2"
proof -
  have pg: "pt_get scenario_table 0 = Inr (free_page\<lparr>words_used_field := 512\<rparr>)"
    by (simp add: pt_get_def in_table_def scenario_table_def)
  have "page_ends_contiguous_block_p scenario_config 3 scenario_table r g = Inr False"
    if "0 \<le> r" "r < 2" for r :: int and g
  proof -
    from that have "r = 0 \<or> r = 1" by arith
    then show ?thesis using scenario_ends(1,2) by auto
  qed
  with scenario_ends(3) show ?thesis
    by (simp add: contiguous_block_final_page_def block_final_loop_iff [OF pg])
qed

text \<open>
  C6. The scenario: in the three-page region page 0 starts a block and pages 1 and 2 do
  not, pages 0 and 1 do not end the block and page 2 does, and the final page of the
  block of page 0 is page 2. In general, for a first page of the table, the function
  returns \<open>q\<close> exactly when \<open>q\<close> is the least page from \<open>first\<close> on that ends a block:
  \<open>q\<close> ends one, and every page from \<open>first\<close> up to \<open>q\<close> has been found not to.
\<close>

theorem contiguous_block_final_page_least:
  "page_starts_contiguous_block_p scenario_table 0 = Inr True \<and>
   page_starts_contiguous_block_p scenario_table 1 = Inr False \<and>
   page_starts_contiguous_block_p scenario_table 2 = Inr False \<and>
   page_ends_contiguous_block_p scenario_config 3 scenario_table 0 g = Inr False \<and>
   page_ends_contiguous_block_p scenario_config 3 scenario_table 1 g = Inr False \<and>
   page_ends_contiguous_block_p scenario_config 3 scenario_table 2 g = Inr True \<and>
   contiguous_block_final_page scenario_config 3 scenario_table 0 = Inr 2 \<and>
   (pt_get page_table first = Inr pg \<longrightarrow>
      (contiguous_block_final_page cfg next_free_page page_table first = Inr q \<longleftrightarrow>
       first \<le> q \<and>
       page_ends_contiguous_block_p cfg next_free_page page_table q (gen pg) = Inr True \<and>
       (\<forall>r. first \<le> r \<and> r < q \<longrightarrow>
          page_ends_contiguous_block_p cfg next_free_page page_table r (gen pg) = Inr False)))"
proof -
  have "contiguous_block_final_page cfg next_free_page page_table first = Inr q \<longleftrightarrow>
       first \<le> q \<and>
       page_ends_contiguous_block_p cfg next_free_page page_table q (gen pg) = Inr True \<and>
       (\<forall>r. first \<le> r \<and> r < q \<longrightarrow>
          page_ends_contiguous_block_p cfg next_free_page page_table r (gen pg) = Inr False)"
    if "pt_get page_table first = Inr pg"
    unfolding contiguous_block_final_page_def by (rule block_final_loop_iff [OF that])
  with scenario_starts scenario_ends scenario_final_page show ?thesis
    by blast
qed

text \<open>
  The general part at work on a table whose second block starts at page 1: the final
  page of that block is page 2, and so page 1 does not end it.
\<close>

theorem contiguous_block_final_page_least_witness:
  "pt_get scenario_table 1
     = Inr (free_page\<lparr>scan_start_offset_field := 3, words_used_field := 512\<rparr>) \<and>
   contiguous_block_final_page scenario_config 3 scenario_table 1 = Inr 2"
proof -
  have pg: "pt_get scenario_table 1
      = Inr (free_page\<lparr>scan_start_offset_field := 3, words_used_field := 512\<rparr>)"
    by (simp add: pt_get_def in_table_def scenario_table_def)
  have "page_ends_contiguous_block_p scenario_config 3 scenario_table r g = Inr False"
    if "1 \<le> r" "r < 2" for r :: int and g
  proof -
    from that have "r = 1" by arith
    then show ?thesis using scenario_ends(2) by simp
  qed
  with scenario_ends(3) pg
    contiguous_block_final_page_least [where page_table = scenario_table and first = 1
      and cfg = scenario_config and next_free_page = 3 and q = 2
      and pg = "free_page\<lparr>scan_start_offset_field := 3, words_used_field := 512\<rparr>"]
  show ?thesis by simp
qed

section \<open>Initialisation of code objects\<close>

text \<open>
  C7. A code object holds its three fixed slots, so it has at least three words. Once
  \<^verbatim>\<open>alloc_code_object\<close> has returned for such an object (it stops the process when the
  build requires \<^verbatim>\<open>GC_INHIBIT\<close> and the thread has not set it), the header holds
  \<open>total_words\<close> above the size shift together with the widetag, the boxed size and the
  debug info are zero, and so is the last word of the object, at index
  \<open>total_words - 1\<close>. No word outside the object is written.
\<close>

theorem alloc_code_object_initialises:
  assumes inhibit: "REQUIRE_GC_INHIBIT cfg \<longrightarrow> gc_inhibit th"
    and size: "3 \<le> unat total_words"
  shows "code_word_after cfg th code mem total_words header_slot =
           Inr (push_bit (CODE_HEADER_SIZE_SHIFT cfg) (ucast total_words)
                OR CODE_HEADER_WIDETAG cfg) \<and>
         code_word_after cfg th code mem total_words boxed_size_slot = Inr 0 \<and>
         code_word_after cfg th code mem total_words debug_info_slot = Inr 0 \<and>
         code_word_after cfg th code mem total_words (unat total_words - 1) = Inr 0 \<and>
         (\<forall>i. unat total_words \<le> i \<longrightarrow>
            code_word_after cfg th code mem total_words i = Inr (mem i))"
proof -
  from size have "total_words \<noteq> 0" by auto
  then have last: "unat (total_words - 1) = unat total_words - 1"
    by (simp add: unat_minus_one)
  with inhibit size show ?thesis
    by (auto simp: code_word_after_def alloc_code_object_def Let_def header_slot_def
        boxed_size_slot_def debug_info_slot_def)
qed

theorem alloc_code_object_initialises_witness:
  "gc_inhibit inhibited_thread \<and> 3 \<le> unat (8 :: 32 word) \<and>
   code_word_after scenario_config inhibited_thread 0x1000000000 (\<lambda>i. 0xDEAD) 8 header_slot
     = Inr 0x80000004D \<and>
   code_word_after scenario_config inhibited_thread 0x1000000000 (\<lambda>i. 0xDEAD) 8 7 = Inr 0 \<and>
   code_word_after scenario_config inhibited_thread 0x1000000000 (\<lambda>i. 0xDEAD) 8 8 = Inr 0xDEAD"
proof -
  have g: "gc_inhibit inhibited_thread"
    by (simp add: inhibited_thread_def)
  then have h: "REQUIRE_GC_INHIBIT scenario_config \<longrightarrow> gc_inhibit inhibited_thread"
    "3 \<le> unat (8 :: 32 word)"
    by simp_all
  from alloc_code_object_initialises [OF h, of "0x1000000000" "\<lambda>i. 0xDEAD"] g
  show ?thesis by (simp add: scenario_config_def)
qed

text \<open>
  Below three words the stores of the fixed slots leave the object; for one word the
  last word is the header, and the store that clears the last word comes after the store
  of the header.
\<close>

lemma alloc_code_object_one_word:
  "code_word_after scenario_config inhibited_thread 0x1000000000 (\<lambda>i. 0xDEAD) 1 header_slot
     = Inr 0 \<and>
   push_bit (CODE_HEADER_SIZE_SHIFT scenario_config) (ucast (1 :: 32 word))
     OR CODE_HEADER_WIDETAG scenario_config \<noteq> (0 :: 64 word)"
  by (simp add: code_word_after_def alloc_code_object_def Let_def header_slot_def
      boxed_size_slot_def debug_info_slot_def scenario_config_def inhibited_thread_def)

section \<open>Starting and stopping the profiler\<close>





lemma cold_start:
  "allocation_profiler_start scenario_config cold_state =
     cold_state\<lparr>alloc_profile_buffer := 0x7F0000000000, profile_buffer_size := 32,
       alloc_profiling := 1, max_alloc_point_counters := 4,
       all_threads := [\<lparr>gc_inhibit = False, profile_data = 0x7F0000000000\<rparr>,
                       \<lparr>gc_inhibit = False, profile_data = 0x7F0000000000\<rparr>],
       os_mapped := [(0x7F0000000000, 32)], os_fresh := [0x7F0000010000],
       stdout := [Using_cells 4 32 0x7F0000000000, Profiler_threads 2]\<rparr>"
  by (simp add: allocation_profiler_start_def cold_state_def scenario_config_def Let_def
      os_allocate_def simple_vector_p_def vector_len_def)


text \<open>
  The start that changes the size of the buffer. It maps the new buffer, installs it in
  every thread and prints the warning when there was a buffer before; then it unmaps
  \<^verbatim>\<open>alloc_profile_buffer\<close>, which by now is the new buffer. The old buffer stays mapped.
\<close>

lemma start_changes_size:
  assumes "alloc_profiling s = 0" and "simple_vector_p (alloc_profile_data s)"
    and "profile_buffer_size s \<noteq> counters_size cfg s"
    and "alloc_profile_buffer s \<noteq> 0"
    and "os_fresh s = a # rest"
  shows "allocation_profiler_start cfg s =
         s\<lparr>max_alloc_point_counters := word_of_nat (vector_len (alloc_profile_data s) div 2),
           profile_buffer_size := counters_size cfg s,
           os_mapped := os_mapped s, os_fresh := rest,
           alloc_profile_buffer := a,
           alloc_profiling := 1,
           all_threads := map (\<lambda>th. th\<lparr>profile_data := a\<rparr>) (all_threads s),
           stdout := stdout s @
             [Using_cells (word_of_nat (vector_len (alloc_profile_data s) div 2))
                (counters_size cfg s) a,
              Profiler_threads (length (all_threads s)), Unsafely_changed]\<rparr>"
  using assms
  by (simp add: allocation_profiler_start_def counters_size_def Let_def os_allocate_def
      os_deallocate_def)

lemma resized_state_eq:
  "resized_state =
     cold_state\<lparr>alloc_profile_buffer := 0x7F0000000000, profile_buffer_size := 32,
       alloc_profile_data := Some 16, max_alloc_point_counters := 4,
       os_mapped := [(0x7F0000000000, 32)], os_fresh := [0x7F0000010000],
       stdout := [Using_cells 4 32 0x7F0000000000, Profiler_threads 2]\<rparr>"
  by (simp add: resized_state_def cold_start allocation_profiler_stop_def)
    (simp add: cold_state_def)

text \<open>
  C9 at work, on the state reached by a start and a stop with 8 metadata entries and a
  vector that has then grown to 16: the second start installs the new buffer at
  \<open>0x7F0000010000\<close> in both threads and prints the warning, and when it returns the only
  mapped region is the old buffer at \<open>0x7F0000000000\<close>; the new buffer, which every
  thread now points to, has been given back.
\<close>

theorem profiler_resize_unmaps_new_buffer:
  "alloc_profile_buffer (allocation_profiler_start scenario_config resized_state)
     = 0x7F0000010000 \<and>
   map profile_data (all_threads (allocation_profiler_start scenario_config resized_state))
     = [0x7F0000010000, 0x7F0000010000] \<and>
   stdout (allocation_profiler_start scenario_config resized_state)
     = stdout resized_state @
         [Using_cells 8 64 0x7F0000010000, Profiler_threads 2, Unsafely_changed] \<and>
   os_mapped resized_state = [(0x7F0000000000, 32)] \<and>
   os_mapped (allocation_profiler_start scenario_config resized_state)
     = [(0x7F0000000000, 32)]"
proof -
  have "allocation_profiler_start scenario_config resized_state =
      resized_state\<lparr>max_alloc_point_counters := 8, profile_buffer_size := 64,
        os_mapped := [(0x7F0000000000, 32)], os_fresh := [],
        alloc_profile_buffer := 0x7F0000010000, alloc_profiling := 1,
        all_threads := map (\<lambda>th. th\<lparr>profile_data := 0x7F0000010000\<rparr>) (all_threads resized_state),
        stdout := stdout resized_state @
          [Using_cells 8 64 0x7F0000010000, Profiler_threads 2, Unsafely_changed]\<rparr>"
    using start_changes_size [of resized_state scenario_config "0x7F0000010000" "[]"]
    by (simp add: resized_state_eq cold_state_def counters_size_def scenario_config_def
        simple_vector_p_def vector_len_def)
  then show ?thesis
    by (simp add: resized_state_eq cold_state_def)
qed

end
